theory Spec2Isabelle
  imports
    Complex_Main
    "HOL-Library.AList"
    "HOL-Library.Sublist"
    "HOL-Library.Char_ord"
    "HOL-Library.List_Lexorder"
begin

section \<open>JSON values and the Python operations the fusion tool applies to them\<close>

text \<open>
  \<^verbatim>\<open>fuse_schema.py\<close> works on whatever \<^verbatim>\<open>json.load\<close> returns: \<^verbatim>\<open>None\<close>, booleans,
  integers, floats, strings, lists and dictionaries.  A dictionary keeps its insertion
  order, so it is an association list; \<^verbatim>\<open>json.load\<close> never yields a dictionary with a
  repeated key, which the predicate \<open>wf_json\<close> below records.  Strings are the UTF-8
  bytes of the Python text.
\<close>

datatype pyfloat = Finite real | PosInf | NegInf | NaN

datatype json =
    JNull
  | JBool bool
  | JInt int
  | JFloat pyfloat
  | JStr string
  | JArr "json list"
  | JObj "(string \<times> json) list"

type_synonym dict = "(string \<times> json) list"

fun wf_json :: "json \<Rightarrow> bool" where
  "wf_json (JArr xs) = list_all wf_json xs"
| "wf_json (JObj kvs) = (distinct (map fst kvs) \<and> list_all (\<lambda>kv. wf_json (snd kv)) kvs)"
| "wf_json _ = True"

text \<open>The exceptions that can leave the functions of the tool.\<close>

datatype exc =
    FileNotFoundError
  | JSONDecodeError
  | TypeError
  | AttributeError
  | KeyError
  | ZeroDivisionError
  | OtherException

definition bindE :: "exc + 'a \<Rightarrow> ('a \<Rightarrow> exc + 'b) \<Rightarrow> exc + 'b" where
  "bindE m f = (case m of Inl e \<Rightarrow> Inl e | Inr x \<Rightarrow> f x)"

text \<open>Truth value of an object, as \<^verbatim>\<open>if x:\<close> and \<^verbatim>\<open>a and b\<close> test it.\<close>

fun py_truthy :: "json \<Rightarrow> bool" where
  "py_truthy JNull = False"
| "py_truthy (JBool b) = b"
| "py_truthy (JInt i) = (i \<noteq> 0)"
| "py_truthy (JFloat f) = (f \<noteq> Finite 0)"
| "py_truthy (JStr s) = (s \<noteq> [])"
| "py_truthy (JArr xs) = (xs \<noteq> [])"
| "py_truthy (JObj kvs) = (kvs \<noteq> [])"

text \<open>
  \<^verbatim>\<open>k in x\<close> for a string \<open>k\<close>: key membership in a dictionary, element membership in a
  list (only an equal string is equal to \<open>k\<close>), substring test in a string, and a
  \<^verbatim>\<open>TypeError\<close> for every other object.
\<close>

fun py_contains :: "string \<Rightarrow> json \<Rightarrow> exc + bool" where
  "py_contains k (JObj kvs) = Inr (k \<in> set (map fst kvs))"
| "py_contains k (JArr xs) = Inr (JStr k \<in> set xs)"
| "py_contains k (JStr s) = Inr (sublist k s)"
| "py_contains k _ = Inl TypeError"

text \<open>\<^verbatim>\<open>x[k]\<close> for a string \<open>k\<close>: only a dictionary can be indexed by a string.\<close>

fun py_getitem :: "json \<Rightarrow> string \<Rightarrow> exc + json" where
  "py_getitem (JObj kvs) k = (case map_of kvs k of None \<Rightarrow> Inl KeyError | Some v \<Rightarrow> Inr v)"
| "py_getitem _ k = Inl TypeError"

text \<open>
  \<^verbatim>\<open>x[k] = v\<close> for a string \<open>k\<close>: a dictionary replaces the value of an existing key in
  place and appends a new key at the end.
\<close>

fun py_setitem :: "json \<Rightarrow> string \<Rightarrow> json \<Rightarrow> exc + json" where
  "py_setitem (JObj kvs) k v = Inr (JObj (AList.update k v kvs))"
| "py_setitem _ k v = Inl TypeError"

text \<open>
  \<^verbatim>\<open>len(x)\<close>.  A Python string counts code points: the bytes of its UTF-8 form that are
  not continuation bytes (\<open>10xxxxxx\<close>).
\<close>

definition continuation_byte :: "char \<Rightarrow> bool" where
  "continuation_byte c = ((of_char c :: nat) div 64 = 2)"

fun py_len :: "json \<Rightarrow> exc + nat" where
  "py_len (JObj kvs) = Inr (length kvs)"
| "py_len (JArr xs) = Inr (length xs)"
| "py_len (JStr s) = Inr (length (filter (\<lambda>c. \<not> continuation_byte c) s))"
| "py_len _ = Inl TypeError"

text \<open>\<^verbatim>\<open>x.items()\<close> and \<^verbatim>\<open>x.keys()\<close>: methods of dictionaries only.\<close>

fun py_items :: "json \<Rightarrow> exc + dict" where
  "py_items (JObj kvs) = Inr kvs"
| "py_items _ = Inl AttributeError"

fun py_keys :: "json \<Rightarrow> exc + string list" where
  "py_keys (JObj kvs) = Inr (map fst kvs)"
| "py_keys _ = Inl AttributeError"

section \<open>The clock\<close>

text \<open>
  \<^verbatim>\<open>datetime.now()\<close> is the only ambient input besides the files.  The tool's runs are
  parametrised by a clock: \<open>clock n\<close> is what the \<open>n\<close>-th call of \<^verbatim>\<open>datetime.now()\<close> of
  the run returns, and every function that calls it takes and returns the number of calls
  made so far.
\<close>

record datetime =
  year :: nat
  month :: nat
  day :: nat
  hour :: nat
  minute :: nat
  second :: nat
  microsecond :: nat

definition digit_char :: "nat \<Rightarrow> char" where
  "digit_char n = char_of (48 + n mod 10)"

fun zpad :: "nat \<Rightarrow> nat \<Rightarrow> string" where
  "zpad 0 n = []"
| "zpad (Suc w) n = zpad w (n div 10) @ [digit_char n]"

definition isoformat :: "datetime \<Rightarrow> string" where
  "isoformat d =
     zpad 4 (year d) @ ''-'' @ zpad 2 (month d) @ ''-'' @ zpad 2 (day d) @ ''T'' @
     zpad 2 (hour d) @ '':'' @ zpad 2 (minute d) @ '':'' @ zpad 2 (second d) @
     (if microsecond d = 0 then [] else ''.'' @ zpad 6 (microsecond d))"

definition strftime_report :: "datetime \<Rightarrow> string" where
  "strftime_report d =
     zpad 4 (year d) @ ''-'' @ zpad 2 (month d) @ ''-'' @ zpad 2 (day d) @ '' '' @
     zpad 2 (hour d) @ '':'' @ zpad 2 (minute d) @ '':'' @ zpad 2 (second d)"

section \<open>\<^verbatim>\<open>convert_performance_structure\<close>\<close>

text \<open>The test \<^verbatim>\<open>k in d and d[k]\<close>, used for \<^verbatim>\<open>matched\<close>, \<^verbatim>\<open>blank\<close> and the sub-keys.\<close>

definition marks :: "string \<Rightarrow> json \<Rightarrow> exc + bool" where
  "marks k d =
     bindE (py_contains k d) (\<lambda>present.
       if present then bindE (py_getitem d k) (\<lambda>v. Inr (py_truthy v)) else Inr False)"

definition property_mapping :: "(string \<times> string) list" where
  "property_mapping =
     [(''correction'', ''correction''),
      (''standardized'', ''standardized''),
      (''filled_blank'', ''filled_blank''),
      (''improved_comment'', ''improved_comment''),
      (''missing_docs'', ''missing_doc''),
      (''contradictions'', ''contradictions''),
      (''questioned'', ''questioned'')]"

text \<open>The inner loop over \<^verbatim>\<open>property_mapping.items()\<close>, filling \<^verbatim>\<open>patient_performance\<close>.\<close>

fun map_unmatched :: "json \<Rightarrow> (string \<times> string) list \<Rightarrow> dict \<Rightarrow> exc + dict" where
  "map_unmatched unmatched_data [] patient_performance = Inr patient_performance"
| "map_unmatched unmatched_data ((old_key, new_key) # rest) patient_performance =
     (case marks old_key unmatched_data of
        Inl e \<Rightarrow> Inl e
      | Inr b \<Rightarrow>
          map_unmatched unmatched_data rest
            (if b then AList.update new_key (JBool True) patient_performance
             else patient_performance))"

text \<open>
  The \<^verbatim>\<open>if\<close>/\<^verbatim>\<open>elif\<close> chain of one subject: the value of \<^verbatim>\<open>patient_performance\<close> before
  the test \<^verbatim>\<open>if patient_performance:\<close>.
\<close>

definition patient_flags :: "json \<Rightarrow> exc + dict" where
  "patient_flags patient_data =
     bindE (marks ''matched'' patient_data) (\<lambda>matched.
       if matched then Inr [(''match'', JBool True)]
       else bindE (marks ''blank'' patient_data) (\<lambda>blank.
         if blank then Inr []
         else bindE (py_contains ''unmatched'' patient_data) (\<lambda>unmatched.
           if unmatched then
             bindE (py_getitem patient_data ''unmatched'') (\<lambda>unmatched_data.
               map_unmatched unmatched_data property_mapping [])
           else Inr [])))"

text \<open>The loop over \<^verbatim>\<open>performance_data.items()\<close>, with the timestamp already taken.\<close>

fun convert_loop :: "string \<Rightarrow> dict \<Rightarrow> dict \<Rightarrow> exc + dict" where
  "convert_loop timestamp [] converted = Inr converted"
| "convert_loop timestamp ((patient_id, patient_data) # rest) converted =
     (case patient_flags patient_data of
        Inl e \<Rightarrow> Inl e
      | Inr patient_performance \<Rightarrow>
          convert_loop timestamp rest
            (if patient_performance \<noteq> [] then
               AList.update patient_id
                 (JObj (AList.update ''last_updated'' (JStr timestamp) patient_performance))
                 converted
             else converted))"

text \<open>
  The function itself: it reads the clock first, once, and then walks the subjects.  The
  result carries the number of clock readings made so far.
\<close>

definition convert_performance_structure ::
    "(nat \<Rightarrow> datetime) \<Rightarrow> nat \<Rightarrow> json \<Rightarrow> exc + (json \<times> nat)" where
  "convert_performance_structure clock n performance_data =
     (let timestamp = isoformat (clock n) @ ''Z'' in
      bindE (py_items performance_data) (\<lambda>items.
        bindE (convert_loop timestamp items []) (\<lambda>converted.
          Inr (JObj converted, Suc n))))"

section \<open>\<^verbatim>\<open>create_placeholder_variable\<close>\<close>

definition placeholder_notes :: string where
  "placeholder_notes =
     ''This variable was automatically created as a placeholder because it existed in performance data but not in the main schema. Please update with proper definition, type, and metadata.''"

definition create_placeholder_variable :: "string \<Rightarrow> dict" where
  "create_placeholder_variable var_name =
     [(''anyOf'', JArr [JObj [(''type'', JStr ''string'')], JObj [(''type'', JStr ''null'')]]),
      (''default'', JNull),
      (''description'',
         JStr (''Placeholder for '' @ var_name @ '' - Please update with proper definition'')),
      (''group_id'', JStr ''unknown''),
      (''notes'', JStr placeholder_notes)]"

text \<open>
  The description as the specification words it, for comparison with the one above: an
  em dash (U+2014, three bytes in UTF-8) and a lower-case \<open>please\<close>.
\<close>

definition spec_placeholder_description :: "string \<Rightarrow> string" where
  "spec_placeholder_description var_name =
     ''Placeholder for '' @ var_name @ '' '' @ [CHR 0xE2, CHR 0x80, CHR 0x94] @
     '' please update with proper definition''"

section \<open>\<^verbatim>\<open>fuse_schemas\<close>\<close>

subsection \<open>The fusion loop\<close>

text \<open>
  The local variables of \<^verbatim>\<open>fuse_schemas\<close> that the loop changes, and the number of clock
  readings made so far.  \<open>properties\<close> is the object the name \<^verbatim>\<open>properties\<close> refers to:
  the loop only ever changes it through that name, and \<^verbatim>\<open>json.load\<close> builds trees
  without sharing, so the in-place updates are updates of this value.
\<close>

record fusion =
  properties :: json
  fused_count :: nat
  created_count :: nat
  variables_with_performance :: "string list"
  missing_variables :: "string list"
  clock_reads :: nat

definition initial_fusion :: "json \<Rightarrow> fusion" where
  "initial_fusion props =
     \<lparr>properties = props, fused_count = 0, created_count = 0,
      variables_with_performance = [], missing_variables = [], clock_reads = 0\<rparr>"

text \<open>
  One iteration of \<^verbatim>\<open>for var_name in performance_schema.keys()\<close>; \<open>entry\<close> is
  \<^verbatim>\<open>performance_schema[var_name]\<close>.  An exception ends the run, so the partly updated
  locals are not kept in that case.
\<close>

definition fuse_step :: "(nat \<Rightarrow> datetime) \<Rightarrow> string \<Rightarrow> json \<Rightarrow> fusion \<Rightarrow> exc + fusion" where
  "fuse_step clock var_name entry st =
     bindE (py_contains var_name (properties st)) (\<lambda>existing.
       if existing then
         bindE (py_contains ''performance'' entry) (\<lambda>has_performance.
           if has_performance then
             bindE (py_getitem entry ''performance'') (\<lambda>raw.
             bindE (convert_performance_structure clock (clock_reads st) raw)
               (\<lambda>(converted_performance, n).
             bindE (py_getitem (properties st) var_name) (\<lambda>var_def.
             bindE (py_setitem var_def ''performance'' converted_performance) (\<lambda>var_def'.
             bindE (py_setitem (properties st) var_name var_def') (\<lambda>properties'.
               Inr (st\<lparr>properties := properties',
                        fused_count := fused_count st + 1,
                        variables_with_performance :=
                          variables_with_performance st @ [var_name],
                        clock_reads := n\<rparr>))))))
           else Inr st)
       else
         bindE (py_contains ''performance'' entry) (\<lambda>has_performance.
         bindE
           (if has_performance then
              bindE (py_getitem entry ''performance'') (\<lambda>raw.
              bindE (convert_performance_structure clock (clock_reads st) raw)
                (\<lambda>(converted_performance, n).
                Inr (AList.update ''performance'' converted_performance
                       (create_placeholder_variable var_name), n)))
            else Inr (create_placeholder_variable var_name, clock_reads st))
           (\<lambda>(placeholder, n).
         bindE (py_setitem (properties st) var_name (JObj placeholder)) (\<lambda>properties'.
           Inr (st\<lparr>properties := properties',
                    created_count := created_count st + 1,
                    variables_with_performance :=
                      variables_with_performance st @ [var_name],
                    missing_variables := missing_variables st @ [var_name],
                    clock_reads := n\<rparr>)))))"

fun fuse_loop :: "(nat \<Rightarrow> datetime) \<Rightarrow> dict \<Rightarrow> fusion \<Rightarrow> exc + fusion" where
  "fuse_loop clock [] st = Inr st"
| "fuse_loop clock ((var_name, entry) # rest) st =
     (case fuse_step clock var_name entry st of
        Inl e \<Rightarrow> Inl e
      | Inr st' \<Rightarrow> fuse_loop clock rest st')"

subsection \<open>Before and after the loop\<close>

text \<open>
  The variable map of the loaded definition schema (\<^verbatim>\<open>properties\<close>), and the document
  that \<^verbatim>\<open>main_schema\<close> is when it is written: \<^verbatim>\<open>properties\<close> is either the value of
  its \<^verbatim>\<open>properties\<close> key or wrapped under that key.
\<close>

definition get_properties :: "json \<Rightarrow> exc + json" where
  "get_properties main_schema =
     bindE (py_contains ''properties'' main_schema) (\<lambda>wrapped.
       if wrapped then py_getitem main_schema ''properties'' else Inr main_schema)"

definition written_document :: "json \<Rightarrow> json \<Rightarrow> json" where
  "written_document main_schema properties' =
     (case main_schema of
        JObj kvs \<Rightarrow>
          if ''properties'' \<in> set (map fst kvs)
          then JObj (AList.update ''properties'' properties' kvs)
          else JObj [(''properties'', properties')]
      | _ \<Rightarrow> JObj [(''properties'', properties')])"

text \<open>
  \<^verbatim>\<open>patients\<close>: the keys of the performance record of the first entry of
  \<^verbatim>\<open>variables_with_performance[:1]\<close>, when that entry has one.
\<close>

definition count_patients :: "json \<Rightarrow> string list \<Rightarrow> exc + string list" where
  "count_patients props vwp =
     (case take 1 vwp of
        [] \<Rightarrow> Inr []
      | var_name # _ \<Rightarrow>
          bindE (py_getitem props var_name) (\<lambda>var_def.
          bindE (py_contains ''performance'' var_def) (\<lambda>has_performance.
            if has_performance then
              bindE (py_getitem var_def ''performance'') (\<lambda>performance.
              bindE (py_keys performance) (\<lambda>ks. Inr (remdups ks)))
            else Inr [])))"

text \<open>\<^verbatim>\<open>patient_count\<close> of one missing variable, and the lines of the listing.\<close>

definition patient_count :: "json \<Rightarrow> string \<Rightarrow> exc + nat" where
  "patient_count props var_name =
     bindE (py_getitem props var_name) (\<lambda>var_def.
     bindE (py_contains ''performance'' var_def) (\<lambda>has_performance.
       if has_performance then bindE (py_getitem var_def ''performance'') py_len
       else Inr 0))"

fun missing_lines :: "json \<Rightarrow> string list \<Rightarrow> exc + (string \<times> nat) list" where
  "missing_lines props [] = Inr []"
| "missing_lines props (var_name # rest) =
     (case patient_count props var_name of
        Inl e \<Rightarrow> Inl e
      | Inr n \<Rightarrow>
          (case missing_lines props rest of
             Inl e \<Rightarrow> Inl e
           | Inr ls \<Rightarrow> Inr ((var_name, n) # ls)))"

subsection \<open>The run\<close>

text \<open>
  What the run meets outside itself: what the two reads return (the loaded document, or
  the exception of \<^verbatim>\<open>open\<close> or \<^verbatim>\<open>json.load\<close>), whether writing the fused schema and the
  report raises, and the clock.  The paths only appear in messages and are left out.
\<close>

record env =
  main_schema_read :: "exc + json"
  performance_schema_read :: "exc + json"
  output_write :: "exc option"
  report_write :: "exc option"
  clock :: "nat \<Rightarrow> datetime"

text \<open>The lines printed, without the banners and the fixed recommendation text.\<close>

datatype event =
    Loaded_main
  | Main_not_found
  | Main_invalid_json
  | Loaded_performance
  | Performance_not_found
  | Performance_invalid_json
  | Main_variables nat
  | Performance_variables nat
  | Fused_existing nat
  | Created_placeholders nat
  | Saved_fused
  | Write_error
  | Summary_counts nat nat nat nat
  | Coverage nat nat
  | Patients nat "string list"
  | Missing_listing "(string \<times> nat) list"
  | Report_saved
  | Report_warning
  | Completed

record report =
  generated :: string
  total_missing :: nat
  report_lines :: "(string \<times> nat) list"

text \<open>
  What a run leaves behind: \<open>outcome\<close> is \<open>Inr b\<close> when \<^verbatim>\<open>fuse_schemas\<close> returns \<open>b\<close> and
  \<open>Inl e\<close> when the exception \<open>e\<close> leaves it; the lines printed; the document written to
  the output path and the report written, if any.
\<close>

record run =
  outcome :: "exc + bool"
  console :: "event list"
  fused_document :: "json option"
  missing_report :: "report option"

definition stop :: "event list \<Rightarrow> exc + bool \<Rightarrow> run" where
  "stop lines r = \<lparr>outcome = r, console = lines, fused_document = None, missing_report = None\<rparr>"

definition say :: "event list \<Rightarrow> run \<Rightarrow> run" where
  "say lines r = r\<lparr>console := lines @ console r\<rparr>"

text \<open>From \<^verbatim>\<open>if missing_variables:\<close> to the end.\<close>

definition missing_phase :: "env \<Rightarrow> fusion \<Rightarrow> run" where
  "missing_phase e st =
     (if missing_variables st \<noteq> [] then
        (case missing_lines (properties st) (sort (missing_variables st)) of
           Inl x \<Rightarrow> stop [] (Inl x)
         | Inr ls \<Rightarrow>
             say [Missing_listing ls]
               (case report_write e of
                  Some x \<Rightarrow> stop [Report_warning, Completed] (Inr True)
                | None \<Rightarrow>
                    (case missing_lines (properties st) (sort (missing_variables st)) of
                       Inl x \<Rightarrow> stop [Report_warning, Completed] (Inr True)
                     | Inr ls' \<Rightarrow>
                         \<lparr>outcome = Inr True,
                          console = [Report_saved, Completed],
                          fused_document = None,
                          missing_report =
                            Some \<lparr>generated = strftime_report (clock e (clock_reads st)),
                                  total_missing = length (missing_variables st),
                                  report_lines = ls'\<rparr>\<rparr>)))
      else stop [Completed] (Inr True))"

text \<open>From \<^verbatim>\<open>FUSION SUMMARY\<close> to the end.\<close>

definition summary_phase :: "env \<Rightarrow> fusion \<Rightarrow> run" where
  "summary_phase e st =
     (case py_len (properties st) of
        Inl x \<Rightarrow> stop [] (Inl x)
      | Inr n_total \<Rightarrow>
          say [Summary_counts n_total (fused_count st) (created_count st)
                 (length (variables_with_performance st))]
            (if n_total = 0 then stop [] (Inl ZeroDivisionError)
             else
               say [Coverage (length (variables_with_performance st)) n_total]
                 (case count_patients (properties st) (variables_with_performance st) of
                    Inl x \<Rightarrow> stop [] (Inl x)
                  | Inr patients \<Rightarrow>
                      say (if patients \<noteq> [] then [Patients (length patients) (sort patients)]
                           else [])
                        (missing_phase e st))))"

text \<open>From the end of the loop: the two counts, the write of the fused schema, the rest.\<close>

definition write_phase :: "env \<Rightarrow> json \<Rightarrow> fusion \<Rightarrow> run" where
  "write_phase e main_schema st =
     say [Fused_existing (fused_count st), Created_placeholders (created_count st)]
       (case output_write e of
          Some x \<Rightarrow> stop [Write_error] (Inr False)
        | None \<Rightarrow>
            (say [Saved_fused] (summary_phase e st))
              \<lparr>fused_document := Some (written_document main_schema (properties st))\<rparr>)"

text \<open>From \<^verbatim>\<open>if 'properties' in main_schema\<close>, with both documents loaded.\<close>

definition fuse_loaded :: "env \<Rightarrow> json \<Rightarrow> json \<Rightarrow> run" where
  "fuse_loaded e main_schema performance_schema =
     (case get_properties main_schema of
        Inl x \<Rightarrow> stop [] (Inl x)
      | Inr props \<Rightarrow>
          (case py_len props of
             Inl x \<Rightarrow> stop [] (Inl x)
           | Inr n_main \<Rightarrow>
               say [Main_variables n_main]
                 (case py_len performance_schema of
                    Inl x \<Rightarrow> stop [] (Inl x)
                  | Inr n_performance \<Rightarrow>
                      say [Performance_variables n_performance]
                        (case bindE (py_items performance_schema)
                                (\<lambda>items. fuse_loop (clock e) items (initial_fusion props)) of
                           Inl x \<Rightarrow> stop [] (Inl x)
                         | Inr st \<Rightarrow> write_phase e main_schema st))))"

text \<open>
  The two reads: \<^verbatim>\<open>FileNotFoundError\<close> and \<^verbatim>\<open>json.JSONDecodeError\<close> are caught and make
  the function return \<^verbatim>\<open>False\<close>; any other exception leaves it.
\<close>

definition fuse_schemas :: "env \<Rightarrow> run" where
  "fuse_schemas e =
     (case main_schema_read e of
        Inl x \<Rightarrow>
          if x = FileNotFoundError then stop [Main_not_found] (Inr False)
          else if x = JSONDecodeError then stop [Main_invalid_json] (Inr False)
          else stop [] (Inl x)
      | Inr main_schema \<Rightarrow>
          say [Loaded_main]
            (case performance_schema_read e of
               Inl x \<Rightarrow>
                 if x = FileNotFoundError then stop [Performance_not_found] (Inr False)
                 else if x = JSONDecodeError then stop [Performance_invalid_json] (Inr False)
                 else stop [] (Inl x)
             | Inr performance_schema \<Rightarrow>
                 say [Loaded_performance] (fuse_loaded e main_schema performance_schema)))"

text \<open>
  \<^verbatim>\<open>main\<close>: the exit status of the process.  \<^verbatim>\<open>exit(1)\<close> after a \<^verbatim>\<open>False\<close> result and an
  exception that nothing catches both end the process with status 1.
\<close>

definition main :: "env \<Rightarrow> nat" where
  "main e = (case outcome (fuse_schemas e) of Inr True \<Rightarrow> 0 | Inr False \<Rightarrow> 1 | Inl x \<Rightarrow> 1)"

section \<open>Notions used in the statements\<close>

text \<open>
  The flag names of a subject's outcome, and what a set of true flags is: distinct flag
  names of the vocabulary, each with the value \<^verbatim>\<open>True\<close>.
\<close>

definition flag_vocabulary :: "string list" where
  "flag_vocabulary =
     [''match'', ''correction'', ''standardized'', ''filled_blank'', ''improved_comment'',
      ''missing_doc'', ''contradictions'', ''questioned'']"

definition true_flags :: "dict \<Rightarrow> bool" where
  "true_flags fl =
     (distinct (map fst fl) \<and>
      list_all (\<lambda>kv. fst kv \<in> set flag_vocabulary \<and> snd kv = JBool True) fl)"

text \<open>
  The entry that one subject contributes to the normalized record: none when the flags of
  its annotation are empty (or cannot be computed), else the flags followed by the
  timestamp.  The loop of \<^verbatim>\<open>convert_performance_structure\<close> is proved below to collect
  exactly these entries.
\<close>

definition subject_outcome :: "string \<Rightarrow> string \<times> json \<Rightarrow> (string \<times> json) option" where
  "subject_outcome timestamp pa =
     (case patient_flags (snd pa) of
        Inl e \<Rightarrow> None
      | Inr fl \<Rightarrow>
          if fl \<noteq> [] then Some (fst pa, JObj (fl @ [(''last_updated'', JStr timestamp)]))
          else None)"

text \<open>
  The shape of an annotation in a well-formed performance dataset: an object whose
  \<^verbatim>\<open>unmatched\<close> value, when there is one, is an object.
\<close>

definition annotation_shaped :: "json \<Rightarrow> bool" where
  "annotation_shaped a =
     (case a of
        JObj kvs \<Rightarrow>
          (case map_of kvs ''unmatched'' of
             None \<Rightarrow> True
           | Some (JObj u) \<Rightarrow> True
           | Some _ \<Rightarrow> False)
      | _ \<Rightarrow> False)"

definition has_performance :: "json \<Rightarrow> bool" where
  "has_performance entry = (py_contains ''performance'' entry = Inr True)"

definition attached_performance :: "json \<Rightarrow> string \<Rightarrow> dict option" where
  "attached_performance props v =
     (case props of
        JObj ps \<Rightarrow>
          (case map_of ps v of
             Some (JObj d) \<Rightarrow>
               (case map_of d ''performance'' of Some (JObj rec) \<Rightarrow> Some rec | _ \<Rightarrow> None)
           | _ \<Rightarrow> None)
      | _ \<Rightarrow> None)"

definition fused_entry :: "dict \<Rightarrow> string \<Rightarrow> bool" where
  "fused_entry ps v =
     (case map_of ps v of
        Some (JObj d) \<Rightarrow>
          (case map_of d ''performance'' of None \<Rightarrow> True | Some (JObj rec) \<Rightarrow> True
           | Some _ \<Rightarrow> False)
      | _ \<Rightarrow> False)"

subsection \<open>Example inputs\<close>

text \<open>A clock whose readings all differ, and the annotations of one variable.\<close>

definition example_clock :: "nat \<Rightarrow> datetime" where
  "example_clock n =
     \<lparr>year = 2026, month = 1, day = 2, hour = 3, minute = 4, second = 5, microsecond = n + 1\<rparr>"

definition example_annotations :: dict where
  "example_annotations =
     [(''p1'', JObj [(''matched'', JBool True)]),
      (''p2'', JObj [(''blank'', JBool True), (''unmatched'', JObj [(''correction'', JBool True)])]),
      (''p3'', JObj [(''unmatched'', JObj [(''missing_docs'', JBool True)])]),
      (''p4'', JObj [(''unmatched'', JObj [(''correction'', JBool False)])])]"

section \<open>Basic facts\<close>

lemma bindE_simps [simp]:
  "bindE (Inl e) f = Inl e"
  "bindE (Inr x) f = f x"
  by (simp_all add: bindE_def)

section \<open>The normalizer\<close>

lemma update_fresh: "k \<notin> fst ` set al \<Longrightarrow> AList.update k v al = al @ [(k, v)]"
  by (induction al) auto

lemma set_update_subset: "set (AList.update k v al) \<subseteq> insert (k, v) (set al)"
  by (induction al) auto

lemma marks_obj:
  "marks k (JObj kvs) = Inr (case map_of kvs k of None \<Rightarrow> False | Some v \<Rightarrow> py_truthy v)"
proof (cases "map_of kvs k")
  case None
  then have "k \<notin> fst ` set kvs" by (simp add: map_of_eq_None_iff)
  with None show ?thesis by (simp add: marks_def)
next
  case (Some v)
  then have "k \<in> fst ` set kvs" by (force dest: map_of_SomeD)
  with Some show ?thesis by (simp add: marks_def)
qed

lemma true_flags_update:
  "true_flags fl \<Longrightarrow> k \<in> set flag_vocabulary \<Longrightarrow> true_flags (AList.update k (JBool True) fl)"
  using set_update_subset [of k "JBool True" fl]
  by (auto simp: true_flags_def distinct_update list_all_iff)

lemma map_unmatched_true_flags:
  "map_unmatched ud m acc = Inr r \<Longrightarrow> true_flags acc \<Longrightarrow> snd ` set m \<subseteq> set flag_vocabulary
     \<Longrightarrow> true_flags r"
proof (induction m arbitrary: acc)
  case Nil
  then show ?case by simp
next
  case (Cons kv m)
  obtain old_key new_key where kv: "kv = (old_key, new_key)" by (cases kv)
  from Cons.prems(1) kv obtain b where
    b: "marks old_key ud = Inr b" and
    r: "map_unmatched ud m (if b then AList.update new_key (JBool True) acc else acc) = Inr r"
    by (auto split: sum.splits)
  have "true_flags (if b then AList.update new_key (JBool True) acc else acc)"
    using Cons.prems(2,3) kv by (simp add: true_flags_update)
  with Cons.IH [OF r] Cons.prems(3) show ?case by simp
qed

lemma patient_flags_cases:
  "patient_flags a = Inr fl \<Longrightarrow>
     fl = [(''match'', JBool True)] \<or> fl = [] \<or>
     (\<exists>ud. map_unmatched ud property_mapping [] = Inr fl)"
  by (auto simp: patient_flags_def bindE_def split: sum.splits if_splits)

lemma true_flags_Nil: "true_flags []"
  by (simp add: true_flags_def)

lemma true_flags_match: "true_flags [(''match'', JBool True)]"
  by (simp add: true_flags_def flag_vocabulary_def)

lemma property_mapping_vocabulary: "snd ` set property_mapping \<subseteq> set flag_vocabulary"
  by (simp add: property_mapping_def flag_vocabulary_def)

lemma patient_flags_true_flags: "patient_flags a = Inr fl \<Longrightarrow> true_flags fl"
  using patient_flags_cases [of a fl] true_flags_Nil true_flags_match
    map_unmatched_true_flags [OF _ true_flags_Nil property_mapping_vocabulary]
  by blast

lemma true_flags_no_timestamp: "true_flags fl \<Longrightarrow> ''last_updated'' \<notin> fst ` set fl"
  by (auto simp: true_flags_def list_all_iff flag_vocabulary_def)

lemma stamp_flags:
  "patient_flags a = Inr fl \<Longrightarrow>
     AList.update ''last_updated'' v fl = fl @ [(''last_updated'', v)]"
  by (rule update_fresh) (rule true_flags_no_timestamp, rule patient_flags_true_flags)

lemma convert_loop_closed:
  "convert_loop ts raw acc = Inr rec \<Longrightarrow> distinct (map fst raw) \<Longrightarrow>
     fst ` set raw \<inter> fst ` set acc = {} \<Longrightarrow>
     rec = acc @ List.map_filter (subject_outcome ts) raw"
proof (induction raw arbitrary: acc)
  case Nil
  then show ?case by (simp add: List.map_filter_simps)
next
  case (Cons pa raw)
  obtain p a where pa: "pa = (p, a)" by (cases pa)
  from Cons.prems(1) pa obtain fl where
    fl: "patient_flags a = Inr fl" and
    rest: "convert_loop ts raw
             (if fl \<noteq> [] then
                AList.update p (JObj (AList.update ''last_updated'' (JStr ts) fl)) acc
              else acc) = Inr rec"
    by (auto split: sum.splits)
  have fresh: "p \<notin> fst ` set acc" "p \<notin> fst ` set raw"
    using Cons.prems(2,3) pa by auto
  let ?out = "JObj (fl @ [(''last_updated'', JStr ts)])"
  let ?acc = "if fl \<noteq> [] then acc @ [(p, ?out)] else acc"
  have acc': "(if fl \<noteq> [] then
                AList.update p (JObj (AList.update ''last_updated'' (JStr ts) fl)) acc
              else acc) = ?acc"
    using fresh(1) by (simp add: update_fresh stamp_flags [OF fl])
  have disj: "fst ` set raw \<inter> fst ` set ?acc = {}"
    using Cons.prems(3) fresh(2) pa by auto
  have "rec = ?acc @ List.map_filter (subject_outcome ts) raw"
    using Cons.IH [OF rest [unfolded acc'] _ disj] Cons.prems(2) by simp
  moreover have "subject_outcome ts pa = (if fl \<noteq> [] then Some (p, ?out) else None)"
    using fl pa by (simp add: subject_outcome_def)
  ultimately show ?case
    by (simp add: List.map_filter_simps)
qed

lemma convert_loop_flags:
  "convert_loop ts raw acc = Inr rec \<Longrightarrow> (p, a) \<in> set raw \<Longrightarrow> \<exists>fl. patient_flags a = Inr fl"
  by (induction raw arbitrary: acc) (auto split: sum.splits)

lemma convert_loop_total:
  "(\<And>a. a \<in> snd ` set raw \<Longrightarrow> \<exists>fl. patient_flags a = Inr fl) \<Longrightarrow>
     \<exists>rec. convert_loop ts raw acc = Inr rec"
proof (induction raw arbitrary: acc)
  case Nil
  then show ?case by simp
next
  case (Cons pa raw)
  obtain p a where pa: "pa = (p, a)" by (cases pa)
  from Cons.prems [of a] pa obtain fl where fl: "patient_flags a = Inr fl" by auto
  have "\<exists>rec. convert_loop ts raw acc' = Inr rec" for acc'
    by (rule Cons.IH) (rule Cons.prems, simp)
  with fl pa show ?case by simp
qed

lemma map_unmatched_obj_total: "\<exists>r. map_unmatched (JObj u) m acc = Inr r"
  by (induction m arbitrary: acc) (auto simp: marks_obj)

lemma patient_flags_shaped: "annotation_shaped a \<Longrightarrow> \<exists>fl. patient_flags a = Inr fl"
proof -
  assume sh: "annotation_shaped a"
  then obtain kvs where a: "a = JObj kvs"
    by (cases a) (simp_all add: annotation_shaped_def)
  show ?thesis
  proof (cases "map_of kvs ''unmatched''")
    case None
    then have "''unmatched'' \<notin> fst ` set kvs" by (simp add: map_of_eq_None_iff)
    then show ?thesis by (simp add: a patient_flags_def marks_obj)
  next
    case (Some ud)
    with sh a obtain u where u: "ud = JObj u"
      by (cases ud) (simp_all add: annotation_shaped_def)
    from Some have "''unmatched'' \<in> fst ` set kvs" by (force dest: map_of_SomeD)
    with Some u show ?thesis
      using map_unmatched_obj_total [of u property_mapping "[]"]
      by (auto simp: a patient_flags_def marks_obj)
  qed
qed

lemma subject_outcome_Some:
  "subject_outcome ts pa = Some (q, out) \<longleftrightarrow>
     q = fst pa \<and>
     (\<exists>fl. patient_flags (snd pa) = Inr fl \<and> fl \<noteq> [] \<and>
           out = JObj (fl @ [(''last_updated'', JStr ts)]))"
  by (auto simp: subject_outcome_def split: sum.splits)

lemma kept_keys:
  "map fst (List.map_filter (subject_outcome ts) raw) =
     map fst (filter (\<lambda>pa. subject_outcome ts pa \<noteq> None) raw)"
proof (induction raw)
  case Nil
  then show ?case by (simp add: List.map_filter_simps)
next
  case (Cons pa raw)
  show ?case
  proof (cases "subject_outcome ts pa")
    case None
    with Cons show ?thesis by (simp add: List.map_filter_simps)
  next
    case (Some qo)
    obtain q out where "qo = (q, out)" by (cases qo)
    with Some have "q = fst pa" by (simp add: subject_outcome_Some)
    with Some Cons \<open>qo = (q, out)\<close> show ?thesis by (simp add: List.map_filter_simps)
  qed
qed

lemma kept_distinct:
  "distinct (map fst raw) \<Longrightarrow> distinct (map fst (List.map_filter (subject_outcome ts) raw))"
  by (simp add: kept_keys distinct_map_filter)

lemma in_map_filter: "y \<in> set (List.map_filter f xs) \<longleftrightarrow> (\<exists>x \<in> set xs. f x = Some y)"
  by (induction xs) (auto split: option.splits)

lemma kept_member:
  "(q, out) \<in> set (List.map_filter (subject_outcome ts) raw) \<longleftrightarrow>
     (\<exists>a fl. (q, a) \<in> set raw \<and> patient_flags a = Inr fl \<and> fl \<noteq> [] \<and>
             out = JObj (fl @ [(''last_updated'', JStr ts)]))"
  by (force simp: in_map_filter subject_outcome_Some)

lemma convert_performance_structure_obj:
  assumes "distinct (map fst raw)"
    and "convert_performance_structure clk n (JObj raw) = Inr (c, n')"
  shows "n' = Suc n \<and>
         c = JObj (List.map_filter (subject_outcome (isoformat (clk n) @ ''Z'')) raw)"
proof -
  from assms(2) obtain rec where
    rec: "convert_loop (isoformat (clk n) @ ''Z'') raw [] = Inr rec" and
    c: "c = JObj rec" "n' = Suc n"
    by (auto simp: convert_performance_structure_def bindE_def split: sum.splits)
  from convert_loop_closed [OF rec assms(1)] c show ?thesis by simp
qed

text \<open>
  Claim C5: for every raw per-subject annotation map (a dictionary, so with distinct
  subject ids), the normalization returns a record when every annotation is shaped as the
  dataset format says; and whenever it returns, a subject is a key of the record if and only
  if the precedence rules (\<open>patient_flags\<close>) give it a non-empty set of flags, the outcome of
  an included subject is its flags followed by \<open>last_updated\<close> set to the timestamp of the
  call, and every stored outcome has at least one flag, each flag being a name of the
  vocabulary set to true.
\<close>

theorem normalized_record_membership:
  assumes "distinct (map fst raw)"
  shows
    "(list_all annotation_shaped (map snd raw) \<longrightarrow>
        (\<exists>rec. convert_performance_structure clk n (JObj raw) = Inr (JObj rec, Suc n)))
     \<and> (\<forall>converted n'.
          convert_performance_structure clk n (JObj raw) = Inr (converted, n') \<longrightarrow>
          (\<exists>rec. converted = JObj rec \<and> distinct (map fst rec)
            \<and> (\<forall>(p, a) \<in> set raw. \<exists>fl.
                  patient_flags a = Inr fl
                  \<and> (p \<in> fst ` set rec \<longleftrightarrow> fl \<noteq> [])
                  \<and> (fl \<noteq> [] \<longrightarrow>
                       map_of rec p =
                         Some (JObj (fl @ [(''last_updated'',
                                            JStr (isoformat (clk n) @ ''Z''))]))))
            \<and> (\<forall>(p, out) \<in> set rec. \<exists>a fl.
                  (p, a) \<in> set raw \<and> patient_flags a = Inr fl \<and> fl \<noteq> [] \<and> true_flags fl
                  \<and> out = JObj (fl @ [(''last_updated'',
                                        JStr (isoformat (clk n) @ ''Z''))]))))"
proof (intro conjI impI allI)
  assume "list_all annotation_shaped (map snd raw)"
  then have "\<exists>fl. patient_flags a = Inr fl" if "a \<in> snd ` set raw" for a
    using that by (auto simp: list_all_iff intro: patient_flags_shaped)
  then obtain rec where "convert_loop (isoformat (clk n) @ ''Z'') raw [] = Inr rec"
    using convert_loop_total [of raw "isoformat (clk n) @ ''Z''" "[]"] by blast
  then show "\<exists>rec. convert_performance_structure clk n (JObj raw) = Inr (JObj rec, Suc n)"
    by (simp add: convert_performance_structure_def)
next
  fix converted n'
  assume run: "convert_performance_structure clk n (JObj raw) = Inr (converted, n')"
  let ?ts = "isoformat (clk n) @ ''Z''"
  let ?rec = "List.map_filter (subject_outcome ?ts) raw"
  have conv: "converted = JObj ?rec"
    using convert_performance_structure_obj [OF assms run] by simp
  have dist: "distinct (map fst ?rec)"
    by (rule kept_distinct [OF assms])
  have loop: "convert_loop ?ts raw [] = Inr ?rec"
    using run conv
    by (auto simp: convert_performance_structure_def bindE_def split: sum.splits)
  have subjects: "\<exists>fl. patient_flags a = Inr fl
        \<and> (p \<in> fst ` set ?rec \<longleftrightarrow> fl \<noteq> [])
        \<and> (fl \<noteq> [] \<longrightarrow> map_of ?rec p = Some (JObj (fl @ [(''last_updated'', JStr ?ts)])))"
    if pa: "(p, a) \<in> set raw" for p a
  proof -
    from convert_loop_flags [OF loop pa] obtain fl where fl: "patient_flags a = Inr fl" ..
    have only: "a' = a" if "(p, a') \<in> set raw" for a'
      using eq_key_imp_eq_value [OF assms that pa] .
    have "p \<in> fst ` set ?rec \<longleftrightarrow> fl \<noteq> []"
    proof
      assume "p \<in> fst ` set ?rec"
      then obtain out where "(p, out) \<in> set ?rec" by auto
      then obtain a' fl' where "(p, a') \<in> set raw" "patient_flags a' = Inr fl'" "fl' \<noteq> []"
        by (auto simp: kept_member)
      with only fl show "fl \<noteq> []" by auto
    next
      assume "fl \<noteq> []"
      with pa fl have "(p, JObj (fl @ [(''last_updated'', JStr ?ts)])) \<in> set ?rec"
        by (auto simp: kept_member)
      then show "p \<in> fst ` set ?rec" by force
    qed
    moreover have "map_of ?rec p = Some (JObj (fl @ [(''last_updated'', JStr ?ts)]))"
      if "fl \<noteq> []"
    proof -
      from that pa fl have "(p, JObj (fl @ [(''last_updated'', JStr ?ts)])) \<in> set ?rec"
        by (auto simp: kept_member)
      with dist show ?thesis by simp
    qed
    ultimately show ?thesis using fl by blast
  qed
  have outcomes: "\<exists>a fl. (p, a) \<in> set raw \<and> patient_flags a = Inr fl \<and> fl \<noteq> [] \<and> true_flags fl
        \<and> out = JObj (fl @ [(''last_updated'', JStr ?ts)])"
    if "(p, out) \<in> set ?rec" for p out
    using that patient_flags_true_flags by (auto simp: kept_member)
  show "\<exists>rec. converted = JObj rec \<and> distinct (map fst rec)
      \<and> (\<forall>(p, a) \<in> set raw. \<exists>fl.
            patient_flags a = Inr fl
            \<and> (p \<in> fst ` set rec \<longleftrightarrow> fl \<noteq> [])
            \<and> (fl \<noteq> [] \<longrightarrow>
                 map_of rec p = Some (JObj (fl @ [(''last_updated'', JStr ?ts)]))))
      \<and> (\<forall>(p, out) \<in> set rec. \<exists>a fl.
            (p, a) \<in> set raw \<and> patient_flags a = Inr fl \<and> fl \<noteq> [] \<and> true_flags fl
            \<and> out = JObj (fl @ [(''last_updated'', JStr ?ts)]))"
    using conv dist subjects outcomes by (intro exI [of _ ?rec]) blast
qed

lemma example_annotations_eval:
  "convert_performance_structure example_clock 0 (JObj example_annotations) =
     Inr (JObj [(''p1'', JObj [(''match'', JBool True),
                               (''last_updated'', JStr ''2026-01-02T03:04:05.000001Z'')]),
                (''p3'', JObj [(''missing_doc'', JBool True),
                               (''last_updated'', JStr ''2026-01-02T03:04:05.000001Z'')])],
          1)"
  by code_simp

text \<open>The statement of C5 at the example annotations.\<close>

theorem normalized_record_membership_witness:
  "distinct (map fst example_annotations)
   \<and> list_all annotation_shaped (map snd example_annotations)
   \<and> (\<exists>rec. convert_performance_structure example_clock 0 (JObj example_annotations) =
               Inr (JObj rec, 1)
            \<and> map fst rec = [''p1'', ''p3'']
            \<and> map_of rec ''p3'' =
                Some (JObj [(''missing_doc'', JBool True),
                            (''last_updated'', JStr (isoformat (example_clock 0) @ ''Z''))]))"
proof -
  have d: "distinct (map fst example_annotations)"
    by (simp add: example_annotations_def)
  have sh: "list_all annotation_shaped (map snd example_annotations)"
    by (simp add: example_annotations_def annotation_shaped_def)
  have fl: "patient_flags (JObj [(''unmatched'', JObj [(''missing_docs'', JBool True)])]) =
              Inr [(''missing_doc'', JBool True)]"
    by code_simp
  from normalized_record_membership [OF d, of example_clock 0] sh
  obtain rec where
    run: "convert_performance_structure example_clock 0 (JObj example_annotations) =
            Inr (JObj rec, Suc 0)"
    by blast
  from normalized_record_membership [OF d, of example_clock 0] run
  have p3: "\<forall>(p, a) \<in> set example_annotations. \<exists>fl.
              patient_flags a = Inr fl \<and>
              (fl \<noteq> [] \<longrightarrow>
                 map_of rec p =
                   Some (JObj (fl @ [(''last_updated'',
                                      JStr (isoformat (example_clock 0) @ ''Z''))])))"
    by fastforce
  have "(''p3'', JObj [(''unmatched'', JObj [(''missing_docs'', JBool True)])])
          \<in> set example_annotations"
    by (simp add: example_annotations_def)
  with p3 fl have "map_of rec ''p3'' =
      Some (JObj [(''missing_doc'', JBool True),
                  (''last_updated'', JStr (isoformat (example_clock 0) @ ''Z''))])"
    by fastforce
  moreover have "map fst rec = [''p1'', ''p3'']"
    using run example_annotations_eval by auto
  ultimately show ?thesis using d sh run by auto
qed

text \<open>
  Claim C6: a subject whose annotation marks \<open>blank\<close> true, and does not mark \<open>matched\<close>
  true (the one key that the precedence rule puts before \<open>blank\<close>), has no flags and is not
  a key of the normalized record, whatever other keys the annotation has; in particular
  for the annotation \<^verbatim>\<open>{"blank": true}\<close> alone or with an \<^verbatim>\<open>unmatched\<close> object beside it.
\<close>

theorem blank_subject_dropped:
  assumes "distinct (map fst raw)"
    and "(p, JObj a) \<in> set raw"
    and "map_of a ''blank'' = Some b" and "py_truthy b"
    and "case map_of a ''matched'' of None \<Rightarrow> True | Some m \<Rightarrow> \<not> py_truthy m"
  shows "patient_flags (JObj a) = Inr []
       \<and> (\<forall>clk n converted n'.
            convert_performance_structure clk n (JObj raw) = Inr (converted, n') \<longrightarrow>
            py_contains p converted = Inr False)"
proof -
  have m: "marks ''matched'' (JObj a) = Inr False"
    using assms(5) by (simp add: marks_obj split: option.splits)
  have bl: "marks ''blank'' (JObj a) = Inr True"
    using assms(3,4) by (simp add: marks_obj)
  have fl: "patient_flags (JObj a) = Inr []"
    by (simp add: patient_flags_def m bl)
  have "py_contains p converted = Inr False"
    if run: "convert_performance_structure clk n (JObj raw) = Inr (converted, n')"
    for clk n converted n'
  proof -
    let ?rec = "List.map_filter (subject_outcome (isoformat (clk n) @ ''Z'')) raw"
    have rec: "converted = JObj ?rec"
      using convert_performance_structure_obj [OF assms(1) run] by simp
    have "p \<notin> fst ` set ?rec"
    proof
      assume "p \<in> fst ` set ?rec"
      then obtain out where "(p, out) \<in> set ?rec" by auto
      then obtain a' fl' where a': "(p, a') \<in> set raw" "patient_flags a' = Inr fl'" "fl' \<noteq> []"
        by (auto simp: kept_member)
      from eq_key_imp_eq_value [OF assms(1) a'(1) assms(2)] have "a' = JObj a" .
      with a' fl show False by simp
    qed
    with rec show ?thesis by simp
  qed
  with fl show ?thesis by blast
qed

text \<open>
  The statement of C6 at subject \<open>p2\<close> of the example, whose \<^verbatim>\<open>unmatched\<close> object would
  set \<open>correction\<close> if \<open>blank\<close> were not there.
\<close>

theorem blank_subject_dropped_witness:
  "distinct (map fst example_annotations)
   \<and> (''p2'', JObj [(''blank'', JBool True), (''unmatched'', JObj [(''correction'', JBool True)])])
       \<in> set example_annotations
   \<and> patient_flags
       (JObj [(''blank'', JBool True), (''unmatched'', JObj [(''correction'', JBool True)])]) = Inr []
   \<and> (\<exists>converted. convert_performance_structure example_clock 0 (JObj example_annotations) =
                     Inr (converted, 1)
                  \<and> py_contains ''p2'' converted = Inr False)"
proof -
  have d: "distinct (map fst example_annotations)"
    by (simp add: example_annotations_def)
  have mem: "(''p2'', JObj [(''blank'', JBool True),
                            (''unmatched'', JObj [(''correction'', JBool True)])])
               \<in> set example_annotations"
    by (simp add: example_annotations_def)
  have b: "map_of [(''blank'', JBool True), (''unmatched'', JObj [(''correction'', JBool True)])]
             ''blank'' = Some (JBool True)"
    by simp
  have t: "py_truthy (JBool True)" by simp
  have m: "case map_of [(''blank'', JBool True),
                        (''unmatched'', JObj [(''correction'', JBool True)])] ''matched'' of
             None \<Rightarrow> True | Some m \<Rightarrow> \<not> py_truthy m"
    by simp
  note dropped = blank_subject_dropped [OF d mem b t m]
  then show ?thesis
    using d mem example_annotations_eval by (intro conjI) auto
qed

section \<open>The placeholder factory\<close>

text \<open>
  Claim C3, as the specification states it, gives the description as
  \<open>Placeholder for {var_name}\<close>, an em dash, \<open>please update with proper definition\<close>.
  The code writes a hyphen and a capital \<open>Please\<close>: for the variable \<open>x\<close> the two
  strings differ.
\<close>

theorem placeholder_description_counterexample:
  "map_of (create_placeholder_variable ''x'') ''description''
     \<noteq> Some (JStr (spec_placeholder_description ''x''))"
  by (simp add: create_placeholder_variable_def spec_placeholder_description_def)

text \<open>
  Claim C3, amended: for every variable name, the placeholder has exactly the five fields
  \<open>anyOf\<close>, \<open>default\<close>, \<open>description\<close>, \<open>group_id\<close> and \<open>notes\<close>, in this order; its type union
  is string-or-null, its default is null, its description is \<open>Placeholder for \<close> followed
  by the name and by \<open> - Please update with proper definition\<close>, its group is \<open>unknown\<close>,
  its notes are the fixed text, and it has no \<open>performance\<close> field.
\<close>

theorem placeholder_fields:
  "map fst (create_placeholder_variable var_name) =
     [''anyOf'', ''default'', ''description'', ''group_id'', ''notes'']
   \<and> map_of (create_placeholder_variable var_name) ''anyOf'' =
       Some (JArr [JObj [(''type'', JStr ''string'')], JObj [(''type'', JStr ''null'')]])
   \<and> map_of (create_placeholder_variable var_name) ''default'' = Some JNull
   \<and> map_of (create_placeholder_variable var_name) ''description'' =
       Some (JStr (''Placeholder for '' @ var_name @ '' - Please update with proper definition''))
   \<and> map_of (create_placeholder_variable var_name) ''group_id'' = Some (JStr ''unknown'')
   \<and> map_of (create_placeholder_variable var_name) ''notes'' = Some (JStr placeholder_notes)
   \<and> map_of (create_placeholder_variable var_name) ''performance'' = None
   \<and> py_contains ''performance'' (JObj (create_placeholder_variable var_name)) = Inr False"
  by (simp add: create_placeholder_variable_def)

section \<open>The fusion loop\<close>

lemma convert_performance_structure_result:
  "convert_performance_structure clk n raw = Inr (c, n') \<Longrightarrow>
     n' = Suc n \<and> (\<exists>rec. c = JObj rec)"
  by (auto simp: convert_performance_structure_def bindE_def split: sum.splits)

lemma py_getitem_obj_Inr:
  "py_getitem (JObj kvs) k = Inr v \<longleftrightarrow> map_of kvs k = Some v"
  by (simp split: option.splits)

lemma py_setitem_Inr:
  "py_setitem d k v = Inr d' \<Longrightarrow> \<exists>kvs. d = JObj kvs \<and> d' = JObj (AList.update k v kvs)"
  by (cases d) auto

lemma fuse_step_obj:
  assumes "properties st = JObj ps" and "fuse_step clk v e st = Inr st'"
  obtains
    (skip) "v \<in> fst ` set ps" "py_contains ''performance'' e = Inr False" "st' = st"
  | (fuse) raw rec d where
      "v \<in> fst ` set ps" "py_contains ''performance'' e = Inr True"
      "py_getitem e ''performance'' = Inr raw"
      "convert_performance_structure clk (clock_reads st) raw =
         Inr (JObj rec, Suc (clock_reads st))"
      "map_of ps v = Some (JObj d)"
      "st' = st\<lparr>properties :=
                   JObj (AList.update v (JObj (AList.update ''performance'' (JObj rec) d)) ps),
                 fused_count := fused_count st + 1,
                 variables_with_performance := variables_with_performance st @ [v],
                 clock_reads := Suc (clock_reads st)\<rparr>"
  | (create) "v \<notin> fst ` set ps" "py_contains ''performance'' e = Inr False"
      "st' = st\<lparr>properties := JObj (ps @ [(v, JObj (create_placeholder_variable v))]),
                 created_count := created_count st + 1,
                 variables_with_performance := variables_with_performance st @ [v],
                 missing_variables := missing_variables st @ [v]\<rparr>"
  | (create_fuse) raw rec where
      "v \<notin> fst ` set ps" "py_contains ''performance'' e = Inr True"
      "py_getitem e ''performance'' = Inr raw"
      "convert_performance_structure clk (clock_reads st) raw =
         Inr (JObj rec, Suc (clock_reads st))"
      "st' = st\<lparr>properties :=
                   JObj (ps @ [(v, JObj (create_placeholder_variable v @
                                         [(''performance'', JObj rec)]))]),
                 created_count := created_count st + 1,
                 variables_with_performance := variables_with_performance st @ [v],
                 missing_variables := missing_variables st @ [v],
                 clock_reads := Suc (clock_reads st)\<rparr>"
proof -
  from assms(2) obtain has where has: "py_contains ''performance'' e = Inr has"
    by (cases "py_contains ''performance'' e")
       (auto simp: fuse_step_def assms(1) bindE_def split: if_splits)
  show thesis
  proof (cases "v \<in> fst ` set ps")
    case True
    show thesis
    proof (cases has)
      case False
      with True has assms have "st' = st" by (simp add: fuse_step_def)
      with True has False show thesis by (intro skip) simp_all
    next
      case hp: True
      from assms True has hp obtain raw where raw: "py_getitem e ''performance'' = Inr raw"
        by (cases "py_getitem e ''performance''") (auto simp: fuse_step_def)
      from assms True has hp raw obtain c n where
        cn: "convert_performance_structure clk (clock_reads st) raw = Inr (c, n)"
        by (cases "convert_performance_structure clk (clock_reads st) raw")
           (auto simp: fuse_step_def)
      from convert_performance_structure_result [OF cn] obtain rec where
        rec: "c = JObj rec" "n = Suc (clock_reads st)" by auto
      from assms True has hp raw cn obtain d0 where d0: "map_of ps v = Some d0"
        by (cases "map_of ps v") (auto simp: fuse_step_def)
      from assms True has hp raw cn d0 obtain d1 where
        d1: "py_setitem d0 ''performance'' c = Inr d1"
        by (cases "py_setitem d0 ''performance'' c") (auto simp: fuse_step_def)
      from py_setitem_Inr [OF d1] obtain d where
        d: "d0 = JObj d" "d1 = JObj (AList.update ''performance'' c d)" by auto
      from assms True has hp raw cn d0 d1 d rec have
        "st' = st\<lparr>properties :=
                   JObj (AList.update v (JObj (AList.update ''performance'' (JObj rec) d)) ps),
                 fused_count := fused_count st + 1,
                 variables_with_performance := variables_with_performance st @ [v],
                 clock_reads := Suc (clock_reads st)\<rparr>"
        by (auto simp: fuse_step_def)
      with True has hp raw cn rec d0 d show thesis by (intro fuse) simp_all
    qed
  next
    case False
    then have fresh: "AList.update v x ps = ps @ [(v, x)]" for x
      by (rule update_fresh)
    show thesis
    proof (cases has)
      case nhp: False
      with False has assms fresh have
        "st' = st\<lparr>properties := JObj (ps @ [(v, JObj (create_placeholder_variable v))]),
                 created_count := created_count st + 1,
                 variables_with_performance := variables_with_performance st @ [v],
                 missing_variables := missing_variables st @ [v]\<rparr>"
        by (auto simp: fuse_step_def)
      with False has nhp show thesis by (intro create) simp_all
    next
      case hp: True
      from assms False has hp obtain raw where raw: "py_getitem e ''performance'' = Inr raw"
        by (cases "py_getitem e ''performance''") (auto simp: fuse_step_def)
      from assms False has hp raw obtain c n where
        cn: "convert_performance_structure clk (clock_reads st) raw = Inr (c, n)"
        by (cases "convert_performance_structure clk (clock_reads st) raw")
           (auto simp: fuse_step_def)
      from convert_performance_structure_result [OF cn] obtain rec where
        rec: "c = JObj rec" "n = Suc (clock_reads st)" by auto
      have ph: "AList.update ''performance'' x (create_placeholder_variable v) =
                  create_placeholder_variable v @ [(''performance'', x)]" for x
        by (simp add: create_placeholder_variable_def)
      from assms False has hp raw cn rec fresh ph have
        "st' = st\<lparr>properties :=
                   JObj (ps @ [(v, JObj (create_placeholder_variable v @
                                         [(''performance'', JObj rec)]))]),
                 created_count := created_count st + 1,
                 variables_with_performance := variables_with_performance st @ [v],
                 missing_variables := missing_variables st @ [v],
                 clock_reads := Suc (clock_reads st)\<rparr>"
        by (auto simp: fuse_step_def)
      with False has hp raw cn rec show thesis by (intro create_fuse) simp_all
    qed
  qed
qed

lemma fuse_loop_append:
  "fuse_loop clk (xs @ ys) st =
     (case fuse_loop clk xs st of Inl e \<Rightarrow> Inl e | Inr st1 \<Rightarrow> fuse_loop clk ys st1)"
  by (induction xs arbitrary: st) (auto split: sum.splits)

lemma map_of_append_fresh:
  "k \<noteq> v \<Longrightarrow> map_of (ps @ [(v, x)]) k = map_of ps k"
  by (simp add: map_add_def split: option.splits)

lemma map_of_append_new:
  "v \<notin> fst ` set ps \<Longrightarrow> map_of (ps @ [(v, x)]) v = Some x"
proof -
  assume "v \<notin> fst ` set ps"
  then have "map_of ps v = None" by (simp add: map_of_eq_None_iff)
  then show ?thesis by (simp add: map_add_def)
qed

text \<open>What one step does to the variable map: its keys, and the other variables.\<close>

lemma fuse_step_keys:
  assumes "properties st = JObj ps" and "fuse_step clk v e st = Inr st'"
  shows "\<exists>ps'. properties st' = JObj ps'
           \<and> map fst ps' = (if v \<in> fst ` set ps then map fst ps else map fst ps @ [v])
           \<and> (\<forall>k. k \<noteq> v \<longrightarrow> map_of ps' k = map_of ps k)"
  using assms
proof (cases rule: fuse_step_obj)
  case skip
  with assms(1) show ?thesis by simp
next
  case (fuse raw rec d)
  then show ?thesis by (simp add: update_keys update_conv')
next
  case create
  then show ?thesis by (simp add: map_of_append_fresh del: map_of_append)
next
  case (create_fuse raw rec)
  then show ?thesis by (simp add: map_of_append_fresh del: map_of_append)
qed

lemma fuse_step_counts:
  assumes "properties st = JObj ps" and "fuse_step clk v e st = Inr st'"
  shows "missing_variables st' = missing_variables st @ (if v \<in> fst ` set ps then [] else [v])"
    and "created_count st' = created_count st + (if v \<in> fst ` set ps then 0 else 1)"
    and "variables_with_performance st' =
           variables_with_performance st @
           (if v \<notin> fst ` set ps \<or> has_performance e then [v] else [])"
    and "fused_count st' =
           fused_count st + (if v \<in> fst ` set ps \<and> has_performance e then 1 else 0)"
    and "clock_reads st' = clock_reads st + (if has_performance e then 1 else 0)"
  using assms by (cases rule: fuse_step_obj; simp add: has_performance_def)+

lemma fuse_loop_frame:
  "fuse_loop clk items st = Inr st' \<Longrightarrow> properties st = JObj ps \<Longrightarrow> k \<notin> fst ` set items \<Longrightarrow>
     \<exists>ps'. properties st' = JObj ps' \<and> map_of ps' k = map_of ps k"
proof (induction items arbitrary: st ps)
  case Nil
  then show ?case by simp
next
  case (Cons ve items)
  obtain v e where ve: "ve = (v, e)" by (cases ve)
  from Cons.prems(1) ve obtain st1 where
    step: "fuse_step clk v e st = Inr st1" and rest: "fuse_loop clk items st1 = Inr st'"
    by (auto split: sum.splits)
  from fuse_step_keys [OF Cons.prems(2) step] Cons.prems(3) ve obtain ps1 where
    ps1: "properties st1 = JObj ps1" "map_of ps1 k = map_of ps k"
    by auto
  from Cons.IH [OF rest ps1(1)] Cons.prems(3) ps1(2) show ?case by auto
qed

lemma fuse_loop_counts:
  "fuse_loop clk items st = Inr st' \<Longrightarrow> properties st = JObj ps \<Longrightarrow> distinct (map fst items) \<Longrightarrow>
     (\<exists>ps'. properties st' = JObj ps'
        \<and> map fst ps' = map fst ps @ filter (\<lambda>v. v \<notin> fst ` set ps) (map fst items))
     \<and> missing_variables st' =
         missing_variables st @ filter (\<lambda>v. v \<notin> fst ` set ps) (map fst items)
     \<and> created_count st' =
         created_count st + length (filter (\<lambda>v. v \<notin> fst ` set ps) (map fst items))
     \<and> variables_with_performance st' =
         variables_with_performance st @
         map fst (filter (\<lambda>ve. fst ve \<notin> fst ` set ps \<or> has_performance (snd ve)) items)
     \<and> fused_count st' =
         fused_count st +
         length (filter (\<lambda>ve. fst ve \<in> fst ` set ps \<and> has_performance (snd ve)) items)
     \<and> clock_reads st' =
         clock_reads st + length (filter (\<lambda>ve. has_performance (snd ve)) items)"
proof (induction items arbitrary: st ps)
  case Nil
  then show ?case by simp
next
  case (Cons ve items)
  obtain v e where ve: "ve = (v, e)" by (cases ve)
  from Cons.prems(1) ve obtain st1 where
    step: "fuse_step clk v e st = Inr st1" and rest: "fuse_loop clk items st1 = Inr st'"
    by (auto split: sum.splits)
  from fuse_step_keys [OF Cons.prems(2) step] obtain ps1 where
    ps1: "properties st1 = JObj ps1"
      "map fst ps1 = (if v \<in> fst ` set ps then map fst ps else map fst ps @ [v])"
    by auto
  have fresh: "v \<notin> fst ` set items" and dist: "distinct (map fst items)"
    using Cons.prems(3) ve by auto
  have keys1: "fst ` set ps1 = (if v \<in> fst ` set ps then fst ` set ps else insert v (fst ` set ps))"
    using ps1(2) by (metis (full_types) Un_insert_right list.set(1,2) list.set_map set_append
        sup_bot.right_neutral)
  have same: "(k \<notin> fst ` set ps1) = (k \<notin> fst ` set ps)" if "k \<in> fst ` set items" for k
    using that fresh keys1 by auto
  have f1: "filter (\<lambda>k. k \<notin> fst ` set ps1) (map fst items) =
            filter (\<lambda>k. k \<notin> fst ` set ps) (map fst items)"
    by (rule filter_cong) (auto simp: same)
  have f2: "filter (\<lambda>ve. fst ve \<notin> fst ` set ps1 \<or> has_performance (snd ve)) items =
            filter (\<lambda>ve. fst ve \<notin> fst ` set ps \<or> has_performance (snd ve)) items"
    by (rule filter_cong) (auto simp: same)
  have f3: "filter (\<lambda>ve. fst ve \<in> fst ` set ps1 \<and> has_performance (snd ve)) items =
            filter (\<lambda>ve. fst ve \<in> fst ` set ps \<and> has_performance (snd ve)) items"
    by (rule filter_cong) (use same in force)+
  note ih = Cons.IH [OF rest ps1(1) dist, unfolded f1 f2 f3]
  note c = fuse_step_counts [OF Cons.prems(2) step]
  show ?case
  proof (cases "v \<in> fst ` set ps")
    case True
    with ih c ps1(2) ve show ?thesis by (cases "has_performance e") simp_all
  next
    case False
    with ih c ps1(2) ve show ?thesis by (cases "has_performance e") simp_all
  qed
qed

end
